theory Spec2Isabelle
  imports Main "HOL-Library.Multiset"
begin

section \<open>Records, property access and JavaScript comparison\<close>

text \<open>
  A table holds records; a record is an object with named properties. It is kept as
  an association list from property names to values of one linearly ordered type
  (numbers, or strings). Reading a property the object does not have yields
  \<open>undefined\<close>, here \<open>None\<close>.
\<close>

type_synonym 'v row = "(string \<times> 'v) list"


text \<open>
  The relational operators of JavaScript on two values of the same primitive type
  compare them; as soon as one operand is \<open>undefined\<close> every one of
  \<open><\<close>, \<open>>\<close>, \<open><=\<close>, \<open>>=\<close> is false.
\<close>

fun js_lt :: "'v::linorder option \<Rightarrow> 'v option \<Rightarrow> bool" where
  "js_lt (Some a) (Some b) = (a < b)"
| "js_lt _ _ = False"

fun js_gt :: "'v::linorder option \<Rightarrow> 'v option \<Rightarrow> bool" where
  "js_gt (Some a) (Some b) = (b < a)"
| "js_gt _ _ = False"



section \<open>Array helpers\<close>

text \<open>
  \<open>Array.prototype.sort(cmp)\<close> is stable, and for a comparator that is consistent
  the result is determined: \<open>x\<close> stays in front of a later \<open>y\<close> unless
  \<open>cmp x y > 0\<close>. \<open>js_sort\<close> computes that array by stable insertion.
\<close>

fun js_insert :: "('a \<Rightarrow> 'a \<Rightarrow> int) \<Rightarrow> 'a \<Rightarrow> 'a list \<Rightarrow> 'a list" where
  "js_insert cmp x [] = [x]"
| "js_insert cmp x (y # ys) = (if cmp x y \<le> 0 then x # y # ys else y # js_insert cmp x ys)"

definition js_sort :: "('a \<Rightarrow> 'a \<Rightarrow> int) \<Rightarrow> 'a list \<Rightarrow> 'a list" where
  "js_sort cmp xs = foldr (js_insert cmp) xs []"

text \<open>
  \<open>Array.prototype.slice(start, end)\<close>: a negative bound counts from the end of the
  array, both bounds are clipped to the array, and an empty array results when the
  first bound is not below the second.
\<close>

definition js_slice :: "'a list \<Rightarrow> int \<Rightarrow> int \<Rightarrow> 'a list" where
  "js_slice xs start end =
     (let len = int (length xs);
          k = (if start < 0 then max (len + start) 0 else min start len);
          final = (if end < 0 then max (len + end) 0 else min end len)
      in take (nat (final - k)) (drop (nat k) xs))"

section \<open>Binary search on a sorted index\<close>









section \<open>The file system\<close>

text \<open>
  A file holds text. The calls the provider makes to \<open>fs/promises\<close> are recorded in
  \<open>oplog\<close> at the moment they are made; what a call does to the files happens later,
  while other code runs.
\<close>

type_synonym path = string
type_synonym table = string

datatype error = SysError string | SyntaxError | TypeError

fun code :: "error \<Rightarrow> string option" where
  "code (SysError c) = Some c"
| "code _ = None"

datatype 'c fs_call = ReadFile path | WriteFile path 'c | Rename path path

record 'c disk =
  files :: "path \<rightharpoonup> 'c"
  oplog :: "'c fs_call list"

definition logged :: "'c fs_call \<Rightarrow> 'c disk \<Rightarrow> 'c disk" where
  "logged c d = d\<lparr>oplog := oplog d @ [c]\<rparr>"

text \<open>
  What the operating system does for these calls, operation by operation. Whether an
  operation fails for a reason outside the program (permissions, a full disk) is given
  by a fault table: the error code it fails with, if any.

  \<open>fs.readFile\<close> reads the text of the file. \<open>fs.writeFile\<close> opens the file for
  writing, which creates it or cuts it to length zero, then writes the text from the
  start of the file through the descriptor it holds, then closes it. A descriptor
  refers to the file, not to the name: after a rename of the file it writes into the
  file under its new name. It is kept here as the name the open file has at the
  moment (\<open>None\<close> when another file has been moved onto that name and the open file
  has no name any more). \<open>fs.rename\<close> moves a file onto another name in one step.
\<close>

datatype fs_op = OpRead path | OpOpen path | OpWrite path | OpRename path path

type_synonym faults = "fs_op \<Rightarrow> string option"

definition fs_read :: "faults \<Rightarrow> string disk \<Rightarrow> path \<Rightarrow> error + string" where
  "fs_read ft d p =
     (case ft (OpRead p) of
        Some c \<Rightarrow> Inl (SysError c)
      | None \<Rightarrow> (case files d p of None \<Rightarrow> Inl (SysError ''ENOENT'') | Some t \<Rightarrow> Inr t))"

definition fs_open :: "faults \<Rightarrow> string disk \<Rightarrow> path \<Rightarrow> error + string disk" where
  "fs_open ft d p =
     (case ft (OpOpen p) of
        Some c \<Rightarrow> Inl (SysError c)
      | None \<Rightarrow> Inr (d\<lparr>files := (files d)(p \<mapsto> [])\<rparr>))"

text \<open>Writing a text at the start of a file leaves what the file held beyond it.\<close>

definition overwrite :: "string \<Rightarrow> string \<Rightarrow> string" where
  "overwrite old t = t @ drop (length t) old"

definition fs_write :: "faults \<Rightarrow> string disk \<Rightarrow> path option \<Rightarrow> path \<Rightarrow> string \<Rightarrow> error + string disk" where
  "fs_write ft d fd p t =
     (case ft (OpWrite p) of
        Some c \<Rightarrow> Inl (SysError c)
      | None \<Rightarrow>
          Inr (case fd of
                 None \<Rightarrow> d
               | Some q \<Rightarrow>
                   d\<lparr>files := (files d)(q \<mapsto> overwrite (case files d q of None \<Rightarrow> [] | Some old \<Rightarrow> old) t)\<rparr>))"

definition fs_rename :: "faults \<Rightarrow> string disk \<Rightarrow> path \<Rightarrow> path \<Rightarrow> error + string disk" where
  "fs_rename ft d src dst =
     (case ft (OpRename src dst) of
        Some c \<Rightarrow> Inl (SysError c)
      | None \<Rightarrow>
          (case files d src of
             None \<Rightarrow> Inl (SysError ''ENOENT'')
           | Some t \<Rightarrow> Inr (d\<lparr>files := ((files d)(src := None))(dst \<mapsto> t)\<rparr>)))"

text \<open>The name of an open file after a file has been moved from \<open>src\<close> onto \<open>dst\<close>.\<close>

definition follow :: "path \<Rightarrow> path \<Rightarrow> path option \<Rightarrow> path option" where
  "follow src dst fd = (if fd = Some src then Some dst else if fd = Some dst then None else fd)"

text \<open>\<open>fs.writeFile\<close> with nothing else happening between its operations.\<close>

definition fs_writeFile :: "faults \<Rightarrow> string disk \<Rightarrow> path \<Rightarrow> string \<Rightarrow> (error + unit) \<times> string disk" where
  "fs_writeFile ft d p t =
     (case fs_open ft (logged (WriteFile p t) d) p of
        Inl e \<Rightarrow> (Inl e, logged (WriteFile p t) d)
      | Inr d1 \<Rightarrow>
          (case fs_write ft d1 (Some p) p t of
             Inl e \<Rightarrow> (Inl e, d1)
           | Inr d2 \<Rightarrow> (Inr (), d2)))"

text \<open>\<open>path.join\<close> of the data directory and a file name, for table names that
  are plain file-name stems.\<close>

definition path_join :: "string \<Rightarrow> string \<Rightarrow> path" where
  "path_join dir name = dir @ ''/'' @ name"

definition table_path :: "string \<Rightarrow> table \<Rightarrow> path" where
  "table_path dir tbl = path_join dir (tbl @ ''.json'')"

definition temp_path :: "path \<Rightarrow> path" where
  "temp_path filePath = filePath @ ''.tmp''"

definition index_path :: "string \<Rightarrow> table \<Rightarrow> string \<Rightarrow> path" where
  "index_path dir tbl field = path_join dir (tbl @ ''.'' @ field @ ''.idx'')"

section \<open>JSON and the platform\<close>

text \<open>
  \<open>JSON.stringify\<close> and \<open>JSON.parse\<close> are functions of the platform and are taken
  as they are: nothing is assumed about them. \<open>JSON_stringify indent rows\<close> is the
  text for an array whose records have the fields \<open>rows\<close> at the moment of the call,
  or the error it throws (a BigInt, a cycle). \<open>JSON_parse\<close> gives what a text
  denotes, or the error it throws: the fields of the records of an array, or a value
  that is not an array, with the fields of what it yields when it is iterable (a
  string) and \<open>None\<close> when it is not (a number, a boolean, \<open>null\<close>, an object).
  The text that was written and the value read back from it need not agree (a Date is
  written as a string). \<open>unhandled_fatal\<close> says whether a promise that is rejected
  with nobody handling it ends the process, which is what Node does unless it is told
  otherwise.
\<close>

datatype 'v parsed = Rows "'v row list" | NotRows "'v row list option"

record 'v platform =
  JSON_stringify :: "nat \<Rightarrow> 'v row list \<Rightarrow> error + string"
  JSON_parse :: "string \<Rightarrow> error + 'v parsed"
  fault :: faults
  unhandled_fatal :: bool

section \<open>The provider's state\<close>

text \<open>
  A JavaScript \<open>Map\<close> keeps its keys in insertion order; \<open>set\<close> on a key that is
  present replaces the value where it stands, \<open>set\<close> on a new key appends.
\<close>

fun map_set :: "('k \<times> 'a) list \<Rightarrow> 'k \<Rightarrow> 'a \<Rightarrow> ('k \<times> 'a) list" where
  "map_set [] k v = [(k, v)]"
| "map_set ((k', v') # m) k v = (if k' = k then (k, v) # m else (k', v') # map_set m k v)"

definition map_delete :: "('k \<times> 'a) list \<Rightarrow> 'k \<Rightarrow> ('k \<times> 'a) list" where
  "map_delete m k = filter (\<lambda>kv. fst kv \<noteq> k) m"

text \<open>
  A cache entry. The type \<open>'d\<close> is how a snapshot is held: as the list of its
  elements or, where the identity of the array objects matters, as a reference to an
  array in a store.
\<close>

record 'd cache_entry =
  data :: 'd
  version :: nat
  lastAccess :: int

text \<open>
  The fields of \<open>FastStorageProvider\<close>. \<open>pendingReads\<close> keeps, for the tables that
  have a load in flight, the promise of that load (its number among the loads that
  were started). \<open>writeTimer\<close> is only ever tested for null, so it is the flag "a
  flush is scheduled". \<open>emitted\<close> collects what the event bus was asked to emit. The
  data directory is kept with the provider; \<open>'r\<close> is what its files hold.
\<close>

record ('d, 'r) provider =
  dataDir :: string
  cache :: "(table \<times> 'd cache_entry) list"
  pendingReads :: "(table \<times> nat) list"
  writeQueue :: "(table \<times> 'd) list"
  writeTimer :: bool
  this_version :: nat
  readCounts :: "(table \<times> nat) list"
  disk :: "'r disk"
  emitted :: "(string \<times> table) list"

text \<open>The provider with snapshots held as lists of elements.\<close>

type_synonym 'r state = "('r list, string) provider"

definition init_state :: "string \<Rightarrow> (path \<rightharpoonup> 'r) \<Rightarrow> ('d, 'r) provider" where
  "init_state dir fs =
     \<lparr> dataDir = dir, cache = [], pendingReads = [], writeQueue = [], writeTimer = False,
       this_version = 0, readCounts = [], disk = \<lparr> files = fs, oplog = [] \<rparr>, emitted = [] \<rparr>"

definition hotDataThreshold :: nat where
  "hotDataThreshold = 10"

section \<open>Cache and eviction\<close>

definition evictIfNeeded :: "('d, 'r) provider \<Rightarrow> ('d, 'r) provider" where
  "evictIfNeeded s =
     (if length (cache s) > 50 then
        (let entries = js_sort (\<lambda>a b. lastAccess (snd a) - lastAccess (snd b)) (cache s);
             toRemove = js_slice entries 0 (int (length entries) - 40)
         in s\<lparr>cache := fold (\<lambda>kv c. map_delete c (fst kv)) toRemove (cache s)\<rparr>)
      else s)"

definition addToCache :: "'r state \<Rightarrow> table \<Rightarrow> 'r list \<Rightarrow> int \<Rightarrow> 'r state" where
  "addToCache s tbl d now =
     evictIfNeeded
       (s\<lparr>cache := map_set (cache s) tbl
                      \<lparr> data = d, version = this_version s, lastAccess = now \<rparr>\<rparr>)"

section \<open>Arrays, records and what is in flight\<close>

text \<open>
  Arrays and records are objects: an array is its elements and whether
  \<open>Object.freeze\<close> has been applied to it, and its elements are references to
  records; a record is its fields. A reference is the position in the store, and a
  new object is put at the end of its store. Two arrays can hold the same record.
\<close>

record 'r jsarray =
  elems :: "'r list"
  frozen :: bool

type_synonym ref = nat
type_synonym 'r heap = "'r jsarray list"

definition alloc :: "'r heap \<Rightarrow> 'r jsarray \<Rightarrow> ref \<times> 'r heap" where
  "alloc h arr = (length h, h @ [arr])"

text \<open>
  What a load hands over: the array that \<open>JSON.parse\<close> or the literal \<open>[]\<close>
  created, or a value that is not an array, with its elements when it is iterable.
\<close>

datatype loaded = AnArray ref | NotArray "ref list option"

text \<open>
  A load is one call of \<open>loadFromDisk\<close>; the promise it returns is the load itself.
  \<open>l_result\<close> is \<open>None\<close> while the promise is pending, then what it was fulfilled or
  rejected with. The load was started by \<open>getData\<close> or by \<open>warmCache\<close>, whose code
  after the \<open>await\<close> runs once the promise is settled.
\<close>

record load =
  l_table :: table
  l_warm :: bool
  l_result :: "(error + loaded) option"
  l_resumed :: bool

text \<open>
  A persist is one call of \<open>writeToDisk\<close>: \<open>fs.writeFile\<close> has been called and
  nothing has happened yet, the temporary file is open, the write is complete and
  \<open>fs.rename\<close> has been called, the rename is done, or the call is rejected.
\<close>

datatype persist_state = Issued | Opened "path option" | Renaming | Done | Failed error

record persist =
  p_flush :: nat
  p_table :: table
  p_text :: string
  p_state :: persist_state

text \<open>
  A flush is one call of \<open>flushWrites\<close>, made by the timer (which drops the promise
  it gets) or by \<open>close\<close> (which awaits it).
\<close>

datatype origin = ByTimer | ByClose

datatype flush_state = Waiting | Fulfilled | Rejected error

record flush =
  f_writes :: "(table \<times> ref) list"
  f_origin :: origin
  f_state :: flush_state

text \<open>The provider with its snapshots held by reference, the stores of the objects,
  the calls that are in flight, and whether the process is still running.\<close>

record 'v world =
  provider :: "(ref, string) provider"
  heap :: "ref heap"
  records :: "'v row list"
  loads :: "load list"
  persists :: "persist list"
  flushes :: "flush list"
  alive :: bool


definition new_array :: "'v world \<Rightarrow> ref list \<Rightarrow> ref \<times> 'v world" where
  "new_array w xs =
     (case alloc (heap w) \<lparr> elems = xs, frozen = False \<rparr> of (a, h') \<Rightarrow> (a, w\<lparr>heap := h'\<rparr>))"

definition new_records :: "'v world \<Rightarrow> 'v row list \<Rightarrow> ref list \<times> 'v world" where
  "new_records w rows =
     ([length (records w) ..< length (records w) + length rows], w\<lparr>records := records w @ rows\<rparr>)"

text \<open>The fields of the records an array holds.\<close>

definition contents :: "'v world \<Rightarrow> ref list \<Rightarrow> 'v row list" where
  "contents w xs = map (\<lambda>r. records w ! r) xs"

definition array_contents :: "'v world \<Rightarrow> ref \<Rightarrow> 'v row list" where
  "array_contents w a = contents w (elems (heap w ! a))"

text \<open>
  What a caller does to an array in place (\<open>push\<close>, \<open>splice\<close>, an assignment to an
  index or to \<open>length\<close>) leaves some other list of elements in it; on a frozen array
  it throws a TypeError (the modules are strict code) and the array stays as it is.
  An assignment to a property of a record leaves other fields in the record.
\<close>

definition array_write :: "'r heap \<Rightarrow> ref \<Rightarrow> 'r list \<Rightarrow> (error + unit) \<times> 'r heap" where
  "array_write h a xs =
     (if a < length h \<and> \<not> frozen (h ! a) then (Inr (), h[a := (h ! a)\<lparr>elems := xs\<rparr>])
      else (Inl TypeError, h))"

definition record_write :: "'v world \<Rightarrow> ref \<Rightarrow> 'v row \<Rightarrow> 'v world" where
  "record_write w r row = (if r < length (records w) then w\<lparr>records := (records w)[r := row]\<rparr> else w)"

section \<open>The cache, by reference\<close>

text \<open>\<open>[...data]\<close>: the elements of an array or of another iterable value; a
  TypeError for a value that is not iterable.\<close>

definition spread :: "'v world \<Rightarrow> loaded \<Rightarrow> error + ref list" where
  "spread w dat =
     (case dat of
        AnArray a \<Rightarrow> Inr (elems (heap w ! a))
      | NotArray (Some xs) \<Rightarrow> Inr xs
      | NotArray None \<Rightarrow> Inl TypeError)"

definition addToCache_h :: "'v world \<Rightarrow> table \<Rightarrow> loaded \<Rightarrow> int \<Rightarrow> (error + unit) \<times> 'v world" where
  "addToCache_h w tbl dat now =
     (case spread w dat of
        Inl e \<Rightarrow> (Inl e, w)
      | Inr xs \<Rightarrow>
          (case alloc (heap w) \<lparr> elems = xs, frozen = True \<rparr> of
             (immutableData, h') \<Rightarrow>
               (Inr (),
                w\<lparr>heap := h',
                  provider := evictIfNeeded
                    ((provider w)\<lparr>cache := map_set (cache (provider w)) tbl
                       \<lparr> data = immutableData, version = this_version (provider w), lastAccess = now \<rparr>\<rparr>)\<rparr>)))"

section \<open>The read path\<close>

text \<open>
  \<open>loadFromDisk\<close> up to its \<open>await\<close>: \<open>fs.readFile\<close> is called and the promise of
  the load is there.
\<close>

definition loadFromDisk_begin :: "'v world \<Rightarrow> table \<Rightarrow> bool \<Rightarrow> nat \<times> 'v world" where
  "loadFromDisk_begin w tbl warm =
     (let filePath = table_path (dataDir (provider w)) tbl
      in (length (loads w),
          w\<lparr>loads := loads w @ [\<lparr> l_table = tbl, l_warm = warm, l_result = None, l_resumed = False \<rparr>],
            provider := (provider w)\<lparr>disk := logged (ReadFile filePath) (disk (provider w))\<rparr>\<rparr>))"

definition settle :: "'v world \<Rightarrow> nat \<Rightarrow> error + loaded \<Rightarrow> 'v world" where
  "settle w p r = w\<lparr>loads := (loads w)[p := (loads w ! p)\<lparr>l_result := Some r\<rparr>]\<rparr>"

text \<open>
  The rest of \<open>loadFromDisk\<close>, when the file has been read: the text is parsed, and
  an error with the code ENOENT is answered with a new empty array.
\<close>

definition loadFromDisk_end :: "'v platform \<Rightarrow> 'v world \<Rightarrow> nat \<Rightarrow> 'v world" where
  "loadFromDisk_end env w p =
     (if p < length (loads w) \<and> l_result (loads w ! p) = None then
        (let filePath = table_path (dataDir (provider w)) (l_table (loads w ! p))
         in case (case fs_read (fault env) (disk (provider w)) filePath of
                    Inl err \<Rightarrow> Inl err
                  | Inr content \<Rightarrow> JSON_parse env content) of
              Inl err \<Rightarrow>
                (if code err = Some ''ENOENT'' then
                   (case new_array w [] of (a, w') \<Rightarrow> settle w' p (Inr (AnArray a)))
                 else settle w p (Inl err))
            | Inr (Rows rows) \<Rightarrow>
                (case new_records w rows of
                   (xs, w1) \<Rightarrow> (case new_array w1 xs of (a, w2) \<Rightarrow> settle w2 p (Inr (AnArray a))))
            | Inr (NotRows None) \<Rightarrow> settle w p (Inr (NotArray None))
            | Inr (NotRows (Some rows)) \<Rightarrow>
                (case new_records w rows of (xs, w1) \<Rightarrow> settle w1 p (Inr (NotArray (Some xs)))))
      else w)"

text \<open>
  \<open>getData\<close> up to its return or its \<open>await\<close>: a copy of the cached array, the
  promise of the load that is in flight for the table, or the promise of a load that
  it starts and registers.
\<close>

datatype got = Returned ref | Handed nat | Started nat

definition getData :: "'v world \<Rightarrow> table \<Rightarrow> int \<Rightarrow> got \<times> 'v world" where
  "getData w tbl now =
     (case map_of (cache (provider w)) tbl of
        Some cached \<Rightarrow>
          (case alloc (heap w) \<lparr> elems = elems (heap w ! data cached), frozen = False \<rparr> of
             (copy, h') \<Rightarrow>
               (Returned copy,
                w\<lparr>provider := (provider w)\<lparr>cache := map_set (cache (provider w)) tbl
                                                 (cached\<lparr>lastAccess := now\<rparr>)\<rparr>,
                  heap := h'\<rparr>))
      | None \<Rightarrow>
          (case map_of (pendingReads (provider w)) tbl of
             Some pending \<Rightarrow> (Handed pending, w)
           | None \<Rightarrow>
               (case loadFromDisk_begin w tbl False of
                  (loadPromise, w1) \<Rightarrow>
                    (Started loadPromise,
                     w1\<lparr>provider := (provider w1)\<lparr>pendingReads :=
                           map_set (pendingReads (provider w1)) tbl loadPromise\<rparr>\<rparr>))))"

text \<open>
  The code of \<open>getData\<close> after the \<open>await\<close>, for the caller that started the load:
  \<open>r\<close> is what the promise was settled with. The \<open>finally\<close> block runs in every case.
\<close>

definition getData_resume :: "'v world \<Rightarrow> table \<Rightarrow> error + loaded \<Rightarrow> int \<Rightarrow> (error + loaded) \<times> 'v world" where
  "getData_resume w tbl r now =
     (case (case r of
              Inl err \<Rightarrow> (Inl err, w)
            | Inr dat \<Rightarrow>
                (let reads = (case map_of (readCounts (provider w)) tbl of None \<Rightarrow> 0 | Some n \<Rightarrow> n) + 1;
                     w1 = w\<lparr>provider := (provider w)\<lparr>readCounts := map_set (readCounts (provider w)) tbl reads\<rparr>\<rparr>
                 in if reads \<ge> hotDataThreshold then
                      (case addToCache_h w1 tbl dat now of
                         (Inl e, w2) \<Rightarrow> (Inl e, w2)
                       | (Inr u, w2) \<Rightarrow> (Inr dat, w2))
                    else (Inr dat, w1))) of
        (res, w') \<Rightarrow>
          (res, w'\<lparr>provider := (provider w')\<lparr>pendingReads := map_delete (pendingReads (provider w')) tbl\<rparr>\<rparr>))"

text \<open>\<open>warmCache\<close>: the load is started without being registered, and whatever is
  thrown after it is caught and dropped.\<close>

definition warmCache :: "'v world \<Rightarrow> table \<Rightarrow> nat \<times> 'v world" where
  "warmCache w tbl = loadFromDisk_begin w tbl True"

definition warmCache_resume :: "'v world \<Rightarrow> table \<Rightarrow> error + loaded \<Rightarrow> int \<Rightarrow> 'v world" where
  "warmCache_resume w tbl r now =
     (case r of
        Inl err \<Rightarrow> w
      | Inr dat \<Rightarrow> snd (addToCache_h w tbl dat now))"

section \<open>The write path\<close>

definition saveData :: "'v world \<Rightarrow> table \<Rightarrow> ref \<Rightarrow> int \<Rightarrow> 'v world" where
  "saveData w tbl dat now =
     (let w1 = w\<lparr>provider := (provider w)\<lparr>this_version := this_version (provider w) + 1\<rparr>\<rparr>;
          w2 = snd (addToCache_h w1 tbl (AnArray dat) now);
          p3 = (provider w2)\<lparr>writeQueue := map_set (writeQueue (provider w2)) tbl dat\<rparr>
      in w2\<lparr>provider := (if \<not> writeTimer p3 then p3\<lparr>writeTimer := True\<rparr> else p3)\<rparr>)"

text \<open>
  \<open>writeToDisk\<close> up to its first \<open>await\<close>: the array is serialized as it is at this
  moment and \<open>fs.writeFile\<close> is called for the temporary file. When
  \<open>JSON.stringify\<close> throws, no call is made and the promise is rejected.
\<close>

definition writeToDisk_begin :: "'v platform \<Rightarrow> nat \<Rightarrow> table \<times> ref \<Rightarrow> 'v world \<Rightarrow> 'v world" where
  "writeToDisk_begin env f wr w =
     (let filePath = table_path (dataDir (provider w)) (fst wr);
          tempPath = temp_path filePath
      in case JSON_stringify env 2 (array_contents w (snd wr)) of
           Inl e \<Rightarrow>
             w\<lparr>persists := persists w @
                  [\<lparr> p_flush = f, p_table = fst wr, p_text = [], p_state = Failed e \<rparr>]\<rparr>
         | Inr t \<Rightarrow>
             w\<lparr>persists := persists w @
                  [\<lparr> p_flush = f, p_table = fst wr, p_text = t, p_state = Issued \<rparr>],
               provider := (provider w)\<lparr>disk := logged (WriteFile tempPath t) (disk (provider w))\<rparr>\<rparr>)"

definition close_clear :: "('d, 'r) provider \<Rightarrow> ('d, 'r) provider" where
  "close_clear s = s\<lparr>cache := [], pendingReads := []\<rparr>"

text \<open>
  The persists of a flush, and \<open>Promise.all\<close> over them with the code that waits for
  it: as soon as one persist is rejected the flush is rejected with its error (the
  first in the array when several are rejected from the start), whatever the other
  persists are doing; when all are fulfilled, \<open>flushWrites\<close> emits the notifications
  and is fulfilled. A rejected flush of the timer is handled by nobody. \<open>close\<close>
  goes on to clear the cache when its flush is fulfilled and is rejected with it
  otherwise.
\<close>

definition persists_of :: "'v world \<Rightarrow> nat \<Rightarrow> persist list" where
  "persists_of w f = filter (\<lambda>p. p_flush p = f) (persists w)"

fun failure :: "persist \<Rightarrow> error option" where
  "failure p = (case p_state p of Failed e \<Rightarrow> Some e | _ \<Rightarrow> None)"

definition set_flush :: "'v world \<Rightarrow> nat \<Rightarrow> flush_state \<Rightarrow> 'v world" where
  "set_flush w f st = w\<lparr>flushes := (flushes w)[f := (flushes w ! f)\<lparr>f_state := st\<rparr>]\<rparr>"

definition settle_flush :: "'v platform \<Rightarrow> nat \<Rightarrow> 'v world \<Rightarrow> 'v world" where
  "settle_flush env f w =
     (if f < length (flushes w) \<and> f_state (flushes w ! f) = Waiting then
        (case List.map_filter failure (persists_of w f) of
           e # es \<Rightarrow>
             (let w1 = set_flush w f (Rejected e)
              in case f_origin (flushes w ! f) of
                   ByTimer \<Rightarrow> (if unhandled_fatal env then w1\<lparr>alive := False\<rparr> else w1)
                 | ByClose \<Rightarrow> w1)
         | [] \<Rightarrow>
             (if \<forall>p \<in> set (persists_of w f). p_state p = Done then
                (let w1 = set_flush w f Fulfilled;
                     w2 = w1\<lparr>provider := (provider w1)\<lparr>emitted := emitted (provider w1) @
                             map (\<lambda>wr. (''write-complete'', fst wr)) (f_writes (flushes w ! f))\<rparr>\<rparr>
                 in case f_origin (flushes w ! f) of
                      ByTimer \<Rightarrow> w2
                    | ByClose \<Rightarrow> w2\<lparr>provider := close_clear (provider w2)\<rparr>)
              else w))
      else w)"

text \<open>\<open>flushWrites\<close> up to its \<open>await\<close>, with what follows at once when no persist
  is left to wait for.\<close>

definition flushWrites :: "'v platform \<Rightarrow> origin \<Rightarrow> 'v world \<Rightarrow> 'v world" where
  "flushWrites env orig w =
     (let writes = writeQueue (provider w);
          f = length (flushes w);
          w1 = w\<lparr>provider := (provider w)\<lparr>writeTimer := False, writeQueue := []\<rparr>,
                flushes := flushes w @ [\<lparr> f_writes = writes, f_origin = orig, f_state = Waiting \<rparr>]\<rparr>
      in settle_flush env f (fold (writeToDisk_begin env f) writes w1))"

text \<open>
  The rest of \<open>writeToDisk\<close>, in the steps in which it happens: the temporary file
  is opened, the text is written and (the write being complete) \<open>fs.rename\<close> is
  called, the file is renamed. A failure rejects the persist.
\<close>

definition set_persist :: "'v world \<Rightarrow> nat \<Rightarrow> persist_state \<Rightarrow> 'v world" where
  "set_persist w k st = w\<lparr>persists := (persists w)[k := (persists w ! k)\<lparr>p_state := st\<rparr>]\<rparr>"

definition fail_persist :: "'v platform \<Rightarrow> nat \<Rightarrow> error \<Rightarrow> 'v world \<Rightarrow> 'v world" where
  "fail_persist env k e w = settle_flush env (p_flush (persists w ! k)) (set_persist w k (Failed e))"

definition with_disk :: "'v world \<Rightarrow> string disk \<Rightarrow> 'v world" where
  "with_disk w d = w\<lparr>provider := (provider w)\<lparr>disk := d\<rparr>\<rparr>"

definition file_open :: "'v platform \<Rightarrow> nat \<Rightarrow> 'v world \<Rightarrow> 'v world" where
  "file_open env k w =
     (if k < length (persists w) \<and> p_state (persists w ! k) = Issued then
        (let tempPath = temp_path (table_path (dataDir (provider w)) (p_table (persists w ! k)))
         in case fs_open (fault env) (disk (provider w)) tempPath of
              Inl e \<Rightarrow> fail_persist env k e w
            | Inr d' \<Rightarrow> set_persist (with_disk w d') k (Opened (Some tempPath)))
      else w)"

definition file_write :: "'v platform \<Rightarrow> nat \<Rightarrow> 'v world \<Rightarrow> 'v world" where
  "file_write env k w =
     (if k < length (persists w) then
        (case p_state (persists w ! k) of
           Opened fd \<Rightarrow>
             (let filePath = table_path (dataDir (provider w)) (p_table (persists w ! k));
                  tempPath = temp_path filePath
              in case fs_write (fault env) (disk (provider w)) fd tempPath (p_text (persists w ! k)) of
                   Inl e \<Rightarrow> fail_persist env k e w
                 | Inr d' \<Rightarrow> set_persist (with_disk w (logged (Rename tempPath filePath) d')) k Renaming)
         | _ \<Rightarrow> w)
      else w)"

definition follow_all :: "path \<Rightarrow> path \<Rightarrow> persist list \<Rightarrow> persist list" where
  "follow_all src dst ps =
     map (\<lambda>p. case p_state p of Opened fd \<Rightarrow> p\<lparr>p_state := Opened (follow src dst fd)\<rparr> | _ \<Rightarrow> p) ps"

definition file_rename :: "'v platform \<Rightarrow> nat \<Rightarrow> 'v world \<Rightarrow> 'v world" where
  "file_rename env k w =
     (if k < length (persists w) \<and> p_state (persists w ! k) = Renaming then
        (let filePath = table_path (dataDir (provider w)) (p_table (persists w ! k));
             tempPath = temp_path filePath
         in case fs_rename (fault env) (disk (provider w)) tempPath filePath of
              Inl e \<Rightarrow> fail_persist env k e w
            | Inr d' \<Rightarrow>
                settle_flush env (p_flush (persists w ! k))
                  (set_persist ((with_disk w d')\<lparr>persists := follow_all tempPath filePath (persists w)\<rparr>) k Done))
      else w)"

text \<open>\<open>close\<close> up to its \<open>await\<close>, or to its end when no flush is scheduled.\<close>

definition close :: "'v platform \<Rightarrow> 'v world \<Rightarrow> 'v world" where
  "close env w =
     (if writeTimer (provider w) then flushWrites env ByClose w
      else w\<lparr>provider := close_clear (provider w)\<rparr>)"

text \<open>The callback of the timer. \<open>clearTimeout\<close> and the callback itself leave
  \<open>writeTimer\<close> null, and then the timer does not fire.\<close>

definition timer_fires :: "'v platform \<Rightarrow> 'v world \<Rightarrow> 'v world" where
  "timer_fires env w = (if writeTimer (provider w) then flushWrites env ByTimer w else w)"

section \<open>The provider as a system of atomic steps\<close>

text \<open>
  JavaScript runs one piece of code at a time, up to the next \<open>await\<close>; what is
  awaited completes while other pieces run. A step is such a piece, or an operation
  of the file system, or something the caller does to its objects. The code that
  waits for a promise runs in the step that settles the promise, except after a load,
  where the callers that were given the promise all wait for it. Any sequence of
  steps can happen, and the process can stop after any step.
\<close>

datatype 'v step =
    SaveData table ref int
  | GetData table int
  | LoadEnd nat
  | Resume nat int
  | WarmCache table
  | TimerFires
  | Close
  | FileOpen nat
  | FileWrite nat
  | FileRename nat
  | NewRecord "'v row"
  | NewArray "ref list"
  | ArrayWrite ref "ref list"
  | RecordWrite ref "'v row"

definition resume :: "'v world \<Rightarrow> nat \<Rightarrow> int \<Rightarrow> 'v world" where
  "resume w p now =
     (if p < length (loads w) \<and> \<not> l_resumed (loads w ! p) then
        (case l_result (loads w ! p) of
           None \<Rightarrow> w
         | Some r \<Rightarrow>
             (let w1 = w\<lparr>loads := (loads w)[p := (loads w ! p)\<lparr>l_resumed := True\<rparr>]\<rparr>
              in if l_warm (loads w ! p) then warmCache_resume w1 (l_table (loads w ! p)) r now
                 else snd (getData_resume w1 (l_table (loads w ! p)) r now)))
      else w)"

fun perform :: "'v platform \<Rightarrow> 'v step \<Rightarrow> 'v world \<Rightarrow> 'v world" where
  "perform env (SaveData tbl dat now) w = (if dat < length (heap w) then saveData w tbl dat now else w)"
| "perform env (GetData tbl now) w = snd (getData w tbl now)"
| "perform env (LoadEnd p) w = loadFromDisk_end env w p"
| "perform env (Resume p now) w = resume w p now"
| "perform env (WarmCache tbl) w = snd (warmCache w tbl)"
| "perform env TimerFires w = timer_fires env w"
| "perform env Close w = close env w"
| "perform env (FileOpen k) w = file_open env k w"
| "perform env (FileWrite k) w = file_write env k w"
| "perform env (FileRename k) w = file_rename env k w"
| "perform env (NewRecord row) w = snd (new_records w [row])"
| "perform env (NewArray xs) w = snd (new_array w xs)"
| "perform env (ArrayWrite a xs) w = w\<lparr>heap := snd (array_write (heap w) a xs)\<rparr>"
| "perform env (RecordWrite r row) w = record_write w r row"

definition exec :: "'v platform \<Rightarrow> 'v step \<Rightarrow> 'v world \<Rightarrow> 'v world" where
  "exec env st w = (if alive w then perform env st w else w)"

definition run :: "'v platform \<Rightarrow> 'v step list \<Rightarrow> 'v world \<Rightarrow> 'v world" where
  "run env steps w = fold (exec env) steps w"

section \<open>Notions used in the properties\<close>

text \<open>The cache is a \<open>Map\<close> (every key stands once) of at most 50 tables.\<close>

definition cache_bounded :: "('d, 'r) provider \<Rightarrow> bool" where
  "cache_bounded s = (distinct (map fst (cache s)) \<and> length (cache s) \<le> 50)"


text \<open>Steps that neither promote a table nor belong to \<open>close\<close>.\<close>

fun calm :: "'v step \<Rightarrow> bool" where
  "calm (SaveData t a now) = False"
| "calm (Resume p now) = False"
| "calm Close = False"
| "calm st = True"



text \<open>A \<open>close\<close> is waiting for its flush.\<close>

definition close_waiting :: "'v world \<Rightarrow> bool" where
  "close_waiting w = (\<exists>f \<in> set (flushes w). f_origin f = ByClose \<and> f_state f = Waiting)"

section \<open>Properties of the binary search\<close>




















section \<open>Properties of the array and map helpers\<close>

lemma js_insert_insort_key:
  "(\<forall>y \<in> set ys. (cmp x y \<le> 0) = (key x \<le> key y)) \<Longrightarrow> js_insert cmp x ys = insort_key key x ys"
  by (induction ys) auto

lemma js_sort_sort_key:
  "(\<forall>x \<in> set xs. \<forall>y \<in> set xs. (cmp x y \<le> 0) = (key x \<le> key y)) \<Longrightarrow> js_sort cmp xs = sort_key key xs"
proof (induction xs)
  case Nil
  then show ?case by (simp add: js_sort_def)
next
  case (Cons x xs)
  then have "js_sort cmp xs = sort_key key xs" by simp
  moreover have "\<forall>y \<in> set (sort_key key xs). (cmp x y \<le> 0) = (key x \<le> key y)"
    using Cons.prems by simp
  ultimately show ?case
    by (simp add: js_sort_def js_insert_insort_key sort_key_def)
qed

lemma js_slice_take: "0 \<le> n \<Longrightarrow> js_slice xs 0 n = take (nat n) xs"
  by (auto simp: js_slice_def Let_def min_def)


lemma keys_map_set: "fst ` set (map_set m k v) = insert k (fst ` set m)"
proof (induction m)
  case Nil
  then show ?case by simp
next
  case (Cons a m)
  show ?case
  proof (cases "fst a = k")
    case True
    then show ?thesis by (cases a) auto
  next
    case False
    then have "map_set (a # m) k v = a # map_set m k v" by (cases a) simp
    then show ?thesis using Cons.IH by auto
  qed
qed

lemma distinct_map_set: "distinct (map fst m) \<Longrightarrow> distinct (map fst (map_set m k v))"
proof (induction m)
  case Nil
  then show ?case by simp
next
  case (Cons a m)
  show ?case
  proof (cases "fst a = k")
    case True
    then show ?thesis using Cons.prems by (cases a) (auto simp: image_iff)
  next
    case False
    then have eq: "map_set (a # m) k v = a # map_set m k v" by (cases a) simp
    have "fst a \<notin> fst ` set (map_set m k v)"
      using Cons.prems False by (simp add: keys_map_set)
    then show ?thesis using Cons eq by simp
  qed
qed



lemma fold_map_delete:
  "fold (\<lambda>kv c. map_delete c (fst kv)) rm c = filter (\<lambda>kv. fst kv \<notin> fst ` set rm) c"
proof (induction rm arbitrary: c)
  case Nil
  then show ?case by simp
next
  case (Cons a rm)
  have "fold (\<lambda>kv c. map_delete c (fst kv)) (a # rm) c
          = filter (\<lambda>kv. fst kv \<notin> fst ` set rm) (map_delete c (fst a))"
    by (simp add: Cons.IH)
  also have "\<dots> = filter (\<lambda>kv. fst kv \<notin> fst ` set (a # rm)) c"
    by (auto simp: map_delete_def intro: filter_cong)
  finally show ?case .
qed

section \<open>Properties of the cache\<close>

lemma evict_sort:
  "js_sort (\<lambda>a b. lastAccess (snd a) - lastAccess (snd b)) c = sort_key (\<lambda>kv. lastAccess (snd kv)) c"
  by (rule js_sort_sort_key) auto

lemma cache_evictIfNeeded:
  "cache (evictIfNeeded s) =
     (if length (cache s) > 50
      then filter (\<lambda>kv. fst kv \<notin> fst ` set (take (length (cache s) - 40)
                     (sort_key (\<lambda>kv. lastAccess (snd kv)) (cache s)))) (cache s)
      else cache s)"
  by (simp add: evictIfNeeded_def Let_def evict_sort js_slice_take fold_map_delete nat_diff_distrib')

lemma evict_split:
  fixes c :: "(table \<times> 'r cache_entry) list"
  assumes dist: "distinct (map fst c)" and k: "k \<le> length c"
  defines "srt \<equiv> sort_key (\<lambda>kv. lastAccess (snd kv)) c"
  defines "res \<equiv> filter (\<lambda>kv. fst kv \<notin> fst ` set (take k srt)) c"
  shows "set res = set (drop k srt)"
    and "set c - set res = set (take k srt)"
    and "length res = length c - k"
    and "\<forall>ev \<in> set (take k srt). \<forall>kept \<in> set (drop k srt). lastAccess (snd ev) \<le> lastAccess (snd kept)"
proof -
  have dsrt: "distinct (map fst srt)"
  proof -
    have "mset (map fst srt) = mset (map fst c)" by (simp add: srt_def)
    then have "distinct (map fst srt) = distinct (map fst c)" by (rule mset_eq_imp_distinct_iff)
    then show ?thesis using dist by simp
  qed
  have split: "srt = take k srt @ drop k srt" by simp
  have disj: "fst ` set (take k srt) \<inter> fst ` set (drop k srt) = {}"
  proof -
    have "distinct (map fst (take k srt) @ map fst (drop k srt))"
      using dsrt by (metis append_take_drop_id map_append)
    then show ?thesis by auto
  qed
  have setc: "set c = set (take k srt) \<union> set (drop k srt)"
  proof -
    have "set c = set srt" by (simp add: srt_def)
    also have "\<dots> = set (take k srt) \<union> set (drop k srt)"
      by (metis append_take_drop_id set_append)
    finally show ?thesis .
  qed
  show r: "set res = set (drop k srt)"
    unfolding res_def using setc disj by auto
  show "set c - set res = set (take k srt)"
    unfolding res_def using setc disj by auto
  have dc: "distinct c" using dist by (simp add: distinct_map)
  have dd: "distinct (drop k srt)"
    using dsrt by (simp add: distinct_map)
  have "distinct res" using dc by (simp add: res_def)
  then have "length res = card (set res)"
    by (simp add: distinct_card)
  also have "\<dots> = card (set (drop k srt))" using r by simp
  also have "\<dots> = length (drop k srt)" using dd by (rule distinct_card)
  also have "\<dots> = length c - k" by (simp add: srt_def)
  finally show "length res = length c - k" .
  have "sorted (map (\<lambda>kv. lastAccess (snd kv)) (take k srt @ drop k srt))"
    by (simp add: srt_def)
  then show "\<forall>ev \<in> set (take k srt). \<forall>kept \<in> set (drop k srt). lastAccess (snd ev) \<le> lastAccess (snd kept)"
    unfolding map_append sorted_append by auto
qed

lemma cache_addToCache:
  "cache (addToCache s tbl d now) =
     cache (evictIfNeeded (s\<lparr>cache := map_set (cache s) tbl \<lparr> data = d, version = this_version s, lastAccess = now \<rparr>\<rparr>))"
  by (simp add: addToCache_def)

text \<open>
  C4. After every promotion the cache holds at most 50 tables. When the promotion made
  the count exceed 50, exactly 40 entries remain, and every entry that was removed has
  a last-access timestamp no greater than that of every entry that stayed.
\<close>

theorem addToCache_eviction:
  assumes "distinct (map fst (cache s))"
  shows "let promoted = map_set (cache s) tbl \<lparr> data = d, version = this_version s, lastAccess = now \<rparr>;
             after = cache (addToCache s tbl d now)
         in length after \<le> 50 \<and>
            distinct (map fst after) \<and>
            (length promoted \<le> 50 \<longrightarrow> after = promoted) \<and>
            (length promoted > 50 \<longrightarrow> length after = 40) \<and>
            set after \<subseteq> set promoted \<and>
            (\<forall>ev \<in> set promoted - set after. \<forall>kept \<in> set after.
               lastAccess (snd ev) \<le> lastAccess (snd kept))"
proof -
  define promoted where "promoted = map_set (cache s) tbl \<lparr> data = d, version = this_version s, lastAccess = now \<rparr>"
  define after where "after = cache (addToCache s tbl d now)"
  have dp: "distinct (map fst promoted)"
    unfolding promoted_def using assms by (rule distinct_map_set)
  show ?thesis
  proof (cases "length promoted > 50")
    case False
    then have "after = promoted"
      by (simp add: after_def promoted_def cache_addToCache cache_evictIfNeeded)
    with False dp show ?thesis
      unfolding Let_def promoted_def[symmetric] after_def[symmetric] by simp
  next
    case True
    let ?k = "length promoted - 40"
    let ?srt = "sort_key (\<lambda>kv. lastAccess (snd kv)) promoted"
    have after: "after = filter (\<lambda>kv. fst kv \<notin> fst ` set (take ?k ?srt)) promoted"
      using True by (simp add: after_def promoted_def cache_addToCache cache_evictIfNeeded)
    have k: "?k \<le> length promoted" by simp
    note sp = evict_split[OF dp k, folded after]
    have "length after = 40" using sp(3) True by simp
    moreover have "distinct (map fst after)"
      unfolding after using dp by (rule distinct_map_filter)
    moreover have "set after \<subseteq> set promoted" unfolding after by auto
    moreover have "\<forall>ev \<in> set promoted - set after. \<forall>kept \<in> set after.
               lastAccess (snd ev) \<le> lastAccess (snd kept)"
      using sp(1,2,4) by simp
    ultimately show ?thesis
      unfolding Let_def promoted_def[symmetric] after_def[symmetric] using True by simp
  qed
qed

theorem addToCache_eviction_witness:
  "let s = (init_state ''d'' Map.empty)
             \<lparr>cache := map (\<lambda>n. (replicate n CHR ''t'', \<lparr> data = [n], version = n, lastAccess = int n \<rparr>)) [1..<51]\<rparr>
   in distinct (map fst (cache s)) \<and>
      length (map_set (cache s) ''x'' \<lparr> data = [7], version = this_version s, lastAccess = 100 \<rparr>) = 51 \<and>
      length (cache (addToCache s ''x'' [7] 100)) = 40"
proof -
  define s :: "nat state" where "s = (init_state ''d'' Map.empty)
             \<lparr>cache := map (\<lambda>n. (replicate n CHR ''t'', \<lparr> data = [n], version = n, lastAccess = int n \<rparr>)) [1..<51]\<rparr>"
  have h: "distinct (map fst (cache s))"
    unfolding s_def by code_simp
  have l: "length (map_set (cache s) ''x'' \<lparr> data = [7], version = this_version s, lastAccess = 100 \<rparr>) = 51"
    unfolding s_def by code_simp
  from addToCache_eviction[OF h, of "''x''" "[7]" 100] l
  have "length (cache (addToCache s ''x'' [7] 100)) = 40"
    by (simp add: Let_def)
  with h l show ?thesis
    unfolding s_def Let_def by blast
qed

section \<open>What eviction leaves\<close>

lemma evict_fields [simp]:
  "dataDir (evictIfNeeded s) = dataDir s"
  "pendingReads (evictIfNeeded s) = pendingReads s"
  "writeQueue (evictIfNeeded s) = writeQueue s"
  "writeTimer (evictIfNeeded s) = writeTimer s"
  "this_version (evictIfNeeded s) = this_version s"
  "readCounts (evictIfNeeded s) = readCounts s"
  "disk (evictIfNeeded s) = disk s"
  "emitted (evictIfNeeded s) = emitted s"
  by (simp_all add: evictIfNeeded_def Let_def)


lemma cache_evict_filter: "\<exists>P. cache (evictIfNeeded s) = filter P (cache s)"
proof (cases "length (cache s) > 50")
  case True
  then show ?thesis by (auto simp: cache_evictIfNeeded)
next
  case False
  then have "cache (evictIfNeeded s) = filter (\<lambda>kv. True) (cache s)"
    by (simp add: cache_evictIfNeeded)
  then show ?thesis by blast
qed


lemma set_evict: "set (cache (evictIfNeeded s)) \<subseteq> set (cache s)"
  using cache_evict_filter[of s] by auto







section \<open>What each operation changes\<close>

lemma addToCache_h_cases:
  "addToCache_h w tbl dat now =
     (case spread w dat of
        Inl e \<Rightarrow> (Inl e, w)
      | Inr xs \<Rightarrow>
          (Inr (),
           w\<lparr>heap := heap w @ [\<lparr> elems = xs, frozen = True \<rparr>],
             provider := evictIfNeeded
               ((provider w)\<lparr>cache := map_set (cache (provider w)) tbl
                  \<lparr> data = length (heap w), version = this_version (provider w), lastAccess = now \<rparr>\<rparr>)\<rparr>))"
  by (simp add: addToCache_h_def alloc_def split: sum.splits)

lemma spread_array [simp]: "spread w (AnArray a) = Inr (elems (heap w ! a))"
  by (simp add: spread_def)

lemma addToCache_h_frame [simp]:
  "records (snd (addToCache_h w tbl dat now)) = records w"
  "loads (snd (addToCache_h w tbl dat now)) = loads w"
  "persists (snd (addToCache_h w tbl dat now)) = persists w"
  "flushes (snd (addToCache_h w tbl dat now)) = flushes w"
  "alive (snd (addToCache_h w tbl dat now)) = alive w"
  "dataDir (provider (snd (addToCache_h w tbl dat now))) = dataDir (provider w)"
  "pendingReads (provider (snd (addToCache_h w tbl dat now))) = pendingReads (provider w)"
  "writeQueue (provider (snd (addToCache_h w tbl dat now))) = writeQueue (provider w)"
  "writeTimer (provider (snd (addToCache_h w tbl dat now))) = writeTimer (provider w)"
  "this_version (provider (snd (addToCache_h w tbl dat now))) = this_version (provider w)"
  "readCounts (provider (snd (addToCache_h w tbl dat now))) = readCounts (provider w)"
  "disk (provider (snd (addToCache_h w tbl dat now))) = disk (provider w)"
  "emitted (provider (snd (addToCache_h w tbl dat now))) = emitted (provider w)"
  by (simp_all add: addToCache_h_cases split: sum.splits)

lemma heap_addToCache_h: "\<exists>ys. heap (snd (addToCache_h w tbl dat now)) = heap w @ ys"
  by (simp add: addToCache_h_cases split: sum.splits)

text \<open>The cache after a promotion: the promoted entries that eviction left.\<close>

lemma cache_addToCache_h:
  "cache (provider (snd (addToCache_h w tbl dat now))) = cache (provider w) \<or>
   (\<exists>P e. data e = length (heap w) \<and> lastAccess e = now \<and>
      length (heap (snd (addToCache_h w tbl dat now))) = Suc (length (heap w)) \<and>
      frozen (heap (snd (addToCache_h w tbl dat now)) ! length (heap w)) \<and>
      cache (provider (snd (addToCache_h w tbl dat now))) = filter P (map_set (cache (provider w)) tbl e))"
proof (cases "spread w dat")
  case (Inl e)
  then show ?thesis by (simp add: addToCache_h_cases)
next
  case (Inr xs)
  let ?e = "\<lparr> data = length (heap w), version = this_version (provider w), lastAccess = now \<rparr>"
  obtain P where "cache (evictIfNeeded ((provider w)\<lparr>cache := map_set (cache (provider w)) tbl ?e\<rparr>))
      = filter P (map_set (cache (provider w)) tbl ?e)"
    using cache_evict_filter[of "(provider w)\<lparr>cache := map_set (cache (provider w)) tbl ?e\<rparr>"] by auto
  then show ?thesis using Inr
    by (intro disjI2 exI[of _ P] exI[of _ ?e]) (simp add: addToCache_h_cases)
qed

lemma settle_frame [simp]:
  "provider (settle w p r) = provider w" "heap (settle w p r) = heap w"
  "records (settle w p r) = records w" "persists (settle w p r) = persists w"
  "flushes (settle w p r) = flushes w" "alive (settle w p r) = alive w"
  "length (loads (settle w p r)) = length (loads w)"
  by (simp_all add: settle_def)

lemma set_flush_frame [simp]:
  "provider (set_flush w f st) = provider w" "heap (set_flush w f st) = heap w"
  "records (set_flush w f st) = records w" "persists (set_flush w f st) = persists w"
  "loads (set_flush w f st) = loads w" "alive (set_flush w f st) = alive w"
  "length (flushes (set_flush w f st)) = length (flushes w)"
  by (simp_all add: set_flush_def)

lemma set_persist_frame [simp]:
  "provider (set_persist w k st) = provider w" "heap (set_persist w k st) = heap w"
  "records (set_persist w k st) = records w" "flushes (set_persist w k st) = flushes w"
  "loads (set_persist w k st) = loads w" "alive (set_persist w k st) = alive w"
  "length (persists (set_persist w k st)) = length (persists w)"
  by (simp_all add: set_persist_def)

lemma with_disk_frame [simp]:
  "heap (with_disk w d) = heap w" "records (with_disk w d) = records w"
  "flushes (with_disk w d) = flushes w" "loads (with_disk w d) = loads w"
  "alive (with_disk w d) = alive w" "persists (with_disk w d) = persists w"
  "disk (provider (with_disk w d)) = d"
  "dataDir (provider (with_disk w d)) = dataDir (provider w)"
  "cache (provider (with_disk w d)) = cache (provider w)"
  "pendingReads (provider (with_disk w d)) = pendingReads (provider w)"
  "writeQueue (provider (with_disk w d)) = writeQueue (provider w)"
  "writeTimer (provider (with_disk w d)) = writeTimer (provider w)"
  "this_version (provider (with_disk w d)) = this_version (provider w)"
  "readCounts (provider (with_disk w d)) = readCounts (provider w)"
  "emitted (provider (with_disk w d)) = emitted (provider w)"
  by (simp_all add: with_disk_def)

lemma settle_flush_frame [simp]:
  "heap (settle_flush env f w) = heap w"
  "records (settle_flush env f w) = records w"
  "loads (settle_flush env f w) = loads w"
  "persists (settle_flush env f w) = persists w"
  "length (flushes (settle_flush env f w)) = length (flushes w)"
  "dataDir (provider (settle_flush env f w)) = dataDir (provider w)"
  "writeQueue (provider (settle_flush env f w)) = writeQueue (provider w)"
  "writeTimer (provider (settle_flush env f w)) = writeTimer (provider w)"
  "this_version (provider (settle_flush env f w)) = this_version (provider w)"
  "readCounts (provider (settle_flush env f w)) = readCounts (provider w)"
  "disk (provider (settle_flush env f w)) = disk (provider w)"
  by (simp_all add: settle_flush_def Let_def close_clear_def split: list.splits origin.splits)

lemma writeToDisk_begin_frame [simp]:
  "heap (writeToDisk_begin env f wr w) = heap w"
  "records (writeToDisk_begin env f wr w) = records w"
  "loads (writeToDisk_begin env f wr w) = loads w"
  "flushes (writeToDisk_begin env f wr w) = flushes w"
  "alive (writeToDisk_begin env f wr w) = alive w"
  "dataDir (provider (writeToDisk_begin env f wr w)) = dataDir (provider w)"
  "cache (provider (writeToDisk_begin env f wr w)) = cache (provider w)"
  "pendingReads (provider (writeToDisk_begin env f wr w)) = pendingReads (provider w)"
  "writeQueue (provider (writeToDisk_begin env f wr w)) = writeQueue (provider w)"
  "writeTimer (provider (writeToDisk_begin env f wr w)) = writeTimer (provider w)"
  "this_version (provider (writeToDisk_begin env f wr w)) = this_version (provider w)"
  "readCounts (provider (writeToDisk_begin env f wr w)) = readCounts (provider w)"
  "emitted (provider (writeToDisk_begin env f wr w)) = emitted (provider w)"
  "files (disk (provider (writeToDisk_begin env f wr w))) = files (disk (provider w))"
  by (simp_all add: writeToDisk_begin_def Let_def logged_def split: sum.splits)

lemma fold_writeToDisk_begin_frame [simp]:
  "heap (fold (writeToDisk_begin env f) wrs w) = heap w"
  "records (fold (writeToDisk_begin env f) wrs w) = records w"
  "loads (fold (writeToDisk_begin env f) wrs w) = loads w"
  "flushes (fold (writeToDisk_begin env f) wrs w) = flushes w"
  "alive (fold (writeToDisk_begin env f) wrs w) = alive w"
  "dataDir (provider (fold (writeToDisk_begin env f) wrs w)) = dataDir (provider w)"
  "cache (provider (fold (writeToDisk_begin env f) wrs w)) = cache (provider w)"
  "pendingReads (provider (fold (writeToDisk_begin env f) wrs w)) = pendingReads (provider w)"
  "writeQueue (provider (fold (writeToDisk_begin env f) wrs w)) = writeQueue (provider w)"
  "writeTimer (provider (fold (writeToDisk_begin env f) wrs w)) = writeTimer (provider w)"
  "this_version (provider (fold (writeToDisk_begin env f) wrs w)) = this_version (provider w)"
  "readCounts (provider (fold (writeToDisk_begin env f) wrs w)) = readCounts (provider w)"
  "emitted (provider (fold (writeToDisk_begin env f) wrs w)) = emitted (provider w)"
  "files (disk (provider (fold (writeToDisk_begin env f) wrs w))) = files (disk (provider w))"
  by (induction wrs arbitrary: w; simp)+

text \<open>A settled flush leaves the cache as it is or, for \<open>close\<close>, empty.\<close>

lemma cache_settle_flush:
  "cache (provider (settle_flush env f w)) = cache (provider w) \<or>
   (cache (provider (settle_flush env f w)) = [] \<and> f < length (flushes w) \<and>
    f_state (flushes w ! f) = Waiting \<and> f_origin (flushes w ! f) = ByClose)"
  by (simp add: settle_flush_def Let_def close_clear_def split: list.splits origin.splits)

lemma flushWrites_frame [simp]:
  "heap (flushWrites env orig w) = heap w"
  "records (flushWrites env orig w) = records w"
  "loads (flushWrites env orig w) = loads w"
  "dataDir (provider (flushWrites env orig w)) = dataDir (provider w)"
  "writeQueue (provider (flushWrites env orig w)) = []"
  "writeTimer (provider (flushWrites env orig w)) = False"
  "this_version (provider (flushWrites env orig w)) = this_version (provider w)"
  "readCounts (provider (flushWrites env orig w)) = readCounts (provider w)"
  "files (disk (provider (flushWrites env orig w))) = files (disk (provider w))"
  "length (flushes (flushWrites env orig w)) = Suc (length (flushes w))"
  by (simp_all add: flushWrites_def Let_def)

lemma fail_persist_frame [simp]:
  "heap (fail_persist env k e w) = heap w"
  "records (fail_persist env k e w) = records w"
  "loads (fail_persist env k e w) = loads w"
  "length (persists (fail_persist env k e w)) = length (persists w)"
  "length (flushes (fail_persist env k e w)) = length (flushes w)"
  "dataDir (provider (fail_persist env k e w)) = dataDir (provider w)"
  "writeQueue (provider (fail_persist env k e w)) = writeQueue (provider w)"
  "writeTimer (provider (fail_persist env k e w)) = writeTimer (provider w)"
  "this_version (provider (fail_persist env k e w)) = this_version (provider w)"
  "readCounts (provider (fail_persist env k e w)) = readCounts (provider w)"
  "disk (provider (fail_persist env k e w)) = disk (provider w)"
  by (simp_all add: fail_persist_def)

lemma file_open_frame [simp]:
  "heap (file_open env k w) = heap w"
  "records (file_open env k w) = records w"
  "loads (file_open env k w) = loads w"
  "length (persists (file_open env k w)) = length (persists w)"
  "length (flushes (file_open env k w)) = length (flushes w)"
  "dataDir (provider (file_open env k w)) = dataDir (provider w)"
  "writeQueue (provider (file_open env k w)) = writeQueue (provider w)"
  "writeTimer (provider (file_open env k w)) = writeTimer (provider w)"
  "this_version (provider (file_open env k w)) = this_version (provider w)"
  "readCounts (provider (file_open env k w)) = readCounts (provider w)"
  by (simp_all add: file_open_def Let_def split: sum.splits)

lemma file_write_frame [simp]:
  "heap (file_write env k w) = heap w"
  "records (file_write env k w) = records w"
  "loads (file_write env k w) = loads w"
  "length (persists (file_write env k w)) = length (persists w)"
  "length (flushes (file_write env k w)) = length (flushes w)"
  "dataDir (provider (file_write env k w)) = dataDir (provider w)"
  "writeQueue (provider (file_write env k w)) = writeQueue (provider w)"
  "writeTimer (provider (file_write env k w)) = writeTimer (provider w)"
  "this_version (provider (file_write env k w)) = this_version (provider w)"
  "readCounts (provider (file_write env k w)) = readCounts (provider w)"
  by (simp_all add: file_write_def Let_def split: sum.splits persist_state.splits)

lemma file_rename_frame [simp]:
  "heap (file_rename env k w) = heap w"
  "records (file_rename env k w) = records w"
  "loads (file_rename env k w) = loads w"
  "length (persists (file_rename env k w)) = length (persists w)"
  "length (flushes (file_rename env k w)) = length (flushes w)"
  "dataDir (provider (file_rename env k w)) = dataDir (provider w)"
  "writeQueue (provider (file_rename env k w)) = writeQueue (provider w)"
  "writeTimer (provider (file_rename env k w)) = writeTimer (provider w)"
  "this_version (provider (file_rename env k w)) = this_version (provider w)"
  "readCounts (provider (file_rename env k w)) = readCounts (provider w)"
  by (simp_all add: file_rename_def Let_def follow_all_def split: sum.splits)

lemma close_frame [simp]:
  "heap (close env w) = heap w"
  "records (close env w) = records w"
  "loads (close env w) = loads w"
  "dataDir (provider (close env w)) = dataDir (provider w)"
  "writeQueue (provider (close env w)) = (if writeTimer (provider w) then [] else writeQueue (provider w))"
  "writeTimer (provider (close env w)) = False"
  "this_version (provider (close env w)) = this_version (provider w)"
  "readCounts (provider (close env w)) = readCounts (provider w)"
  "files (disk (provider (close env w))) = files (disk (provider w))"
  by (simp_all add: close_def close_clear_def)

lemma timer_fires_frame [simp]:
  "heap (timer_fires env w) = heap w"
  "records (timer_fires env w) = records w"
  "loads (timer_fires env w) = loads w"
  "dataDir (provider (timer_fires env w)) = dataDir (provider w)"
  "writeQueue (provider (timer_fires env w)) = (if writeTimer (provider w) then [] else writeQueue (provider w))"
  "writeTimer (provider (timer_fires env w)) = False"
  "this_version (provider (timer_fires env w)) = this_version (provider w)"
  "readCounts (provider (timer_fires env w)) = readCounts (provider w)"
  "files (disk (provider (timer_fires env w))) = files (disk (provider w))"
  by (simp_all add: timer_fires_def)

lemma loadFromDisk_begin_frame [simp]:
  "heap (snd (loadFromDisk_begin w tbl warm)) = heap w"
  "records (snd (loadFromDisk_begin w tbl warm)) = records w"
  "persists (snd (loadFromDisk_begin w tbl warm)) = persists w"
  "flushes (snd (loadFromDisk_begin w tbl warm)) = flushes w"
  "alive (snd (loadFromDisk_begin w tbl warm)) = alive w"
  "fst (loadFromDisk_begin w tbl warm) = length (loads w)"
  "loads (snd (loadFromDisk_begin w tbl warm)) =
     loads w @ [\<lparr> l_table = tbl, l_warm = warm, l_result = None, l_resumed = False \<rparr>]"
  "dataDir (provider (snd (loadFromDisk_begin w tbl warm))) = dataDir (provider w)"
  "cache (provider (snd (loadFromDisk_begin w tbl warm))) = cache (provider w)"
  "pendingReads (provider (snd (loadFromDisk_begin w tbl warm))) = pendingReads (provider w)"
  "writeQueue (provider (snd (loadFromDisk_begin w tbl warm))) = writeQueue (provider w)"
  "writeTimer (provider (snd (loadFromDisk_begin w tbl warm))) = writeTimer (provider w)"
  "this_version (provider (snd (loadFromDisk_begin w tbl warm))) = this_version (provider w)"
  "readCounts (provider (snd (loadFromDisk_begin w tbl warm))) = readCounts (provider w)"
  "emitted (provider (snd (loadFromDisk_begin w tbl warm))) = emitted (provider w)"
  "files (disk (provider (snd (loadFromDisk_begin w tbl warm)))) = files (disk (provider w))"
  by (simp_all add: loadFromDisk_begin_def Let_def logged_def)

lemma new_array_frame [simp]:
  "provider (snd (new_array w xs)) = provider w"
  "records (snd (new_array w xs)) = records w"
  "loads (snd (new_array w xs)) = loads w"
  "persists (snd (new_array w xs)) = persists w"
  "flushes (snd (new_array w xs)) = flushes w"
  "alive (snd (new_array w xs)) = alive w"
  "fst (new_array w xs) = length (heap w)"
  "heap (snd (new_array w xs)) = heap w @ [\<lparr> elems = xs, frozen = False \<rparr>]"
  by (simp_all add: new_array_def alloc_def)

lemma new_records_frame [simp]:
  "provider (snd (new_records w rows)) = provider w"
  "heap (snd (new_records w rows)) = heap w"
  "loads (snd (new_records w rows)) = loads w"
  "persists (snd (new_records w rows)) = persists w"
  "flushes (snd (new_records w rows)) = flushes w"
  "alive (snd (new_records w rows)) = alive w"
  "fst (new_records w rows) = [length (records w) ..< length (records w) + length rows]"
  "records (snd (new_records w rows)) = records w @ rows"
  by (simp_all add: new_records_def)

lemma record_write_frame [simp]:
  "provider (record_write w r row) = provider w"
  "heap (record_write w r row) = heap w"
  "loads (record_write w r row) = loads w"
  "persists (record_write w r row) = persists w"
  "flushes (record_write w r row) = flushes w"
  "alive (record_write w r row) = alive w"
  "length (records (record_write w r row)) = length (records w)"
  by (simp_all add: record_write_def)

lemma loadFromDisk_end_frame [simp]:
  "provider (loadFromDisk_end env w p) = provider w"
  "persists (loadFromDisk_end env w p) = persists w"
  "flushes (loadFromDisk_end env w p) = flushes w"
  "alive (loadFromDisk_end env w p) = alive w"
  "length (loads (loadFromDisk_end env w p)) = length (loads w)"
  by (simp_all add: loadFromDisk_end_def Let_def case_prod_beta
        split: sum.splits parsed.splits option.splits)

lemma heap_loadFromDisk_end: "\<exists>ys. heap (loadFromDisk_end env w p) = heap w @ ys"
  by (simp add: loadFromDisk_end_def Let_def case_prod_beta
        split: sum.splits parsed.splits option.splits)

lemma records_loadFromDisk_end: "\<exists>ys. records (loadFromDisk_end env w p) = records w @ ys"
  by (simp add: loadFromDisk_end_def Let_def case_prod_beta
        split: sum.splits parsed.splits option.splits)

lemma getData_hit:
  "map_of (cache (provider w)) T = Some e \<Longrightarrow>
     getData w T now =
       (Returned (length (heap w)),
        w\<lparr>provider := (provider w)\<lparr>cache := map_set (cache (provider w)) T (e\<lparr>lastAccess := now\<rparr>)\<rparr>,
          heap := heap w @ [\<lparr> elems = elems (heap w ! data e), frozen = False \<rparr>]\<rparr>)"
  by (simp add: getData_def alloc_def)

lemma getData_handed:
  "map_of (cache (provider w)) T = None \<Longrightarrow> map_of (pendingReads (provider w)) T = Some p \<Longrightarrow>
     getData w T now = (Handed p, w)"
  by (simp add: getData_def)

lemma getData_started:
  "map_of (cache (provider w)) T = None \<Longrightarrow> map_of (pendingReads (provider w)) T = None \<Longrightarrow>
     getData w T now =
       (Started (length (loads w)),
        w\<lparr>loads := loads w @ [\<lparr> l_table = T, l_warm = False, l_result = None, l_resumed = False \<rparr>],
          provider := (provider w)
            \<lparr>disk := logged (ReadFile (table_path (dataDir (provider w)) T)) (disk (provider w)),
             pendingReads := map_set (pendingReads (provider w)) T (length (loads w))\<rparr>\<rparr>)"
  by (simp add: getData_def loadFromDisk_begin_def Let_def)

lemma getData_frame [simp]:
  "records (snd (getData w T now)) = records w"
  "persists (snd (getData w T now)) = persists w"
  "flushes (snd (getData w T now)) = flushes w"
  "alive (snd (getData w T now)) = alive w"
  "dataDir (provider (snd (getData w T now))) = dataDir (provider w)"
  "writeQueue (provider (snd (getData w T now))) = writeQueue (provider w)"
  "writeTimer (provider (snd (getData w T now))) = writeTimer (provider w)"
  "this_version (provider (snd (getData w T now))) = this_version (provider w)"
  "readCounts (provider (snd (getData w T now))) = readCounts (provider w)"
  "emitted (provider (snd (getData w T now))) = emitted (provider w)"
  "files (disk (provider (snd (getData w T now)))) = files (disk (provider w))"
  by (simp_all add: getData_def alloc_def case_prod_beta split: option.splits)

lemma heap_getData: "\<exists>ys. heap (snd (getData w T now)) = heap w @ ys"
  by (simp add: getData_def alloc_def case_prod_beta split: option.splits)

lemma getData_resume_frame [simp]:
  "records (snd (getData_resume w T r now)) = records w"
  "loads (snd (getData_resume w T r now)) = loads w"
  "persists (snd (getData_resume w T r now)) = persists w"
  "flushes (snd (getData_resume w T r now)) = flushes w"
  "alive (snd (getData_resume w T r now)) = alive w"
  "dataDir (provider (snd (getData_resume w T r now))) = dataDir (provider w)"
  "writeQueue (provider (snd (getData_resume w T r now))) = writeQueue (provider w)"
  "writeTimer (provider (snd (getData_resume w T r now))) = writeTimer (provider w)"
  "this_version (provider (snd (getData_resume w T r now))) = this_version (provider w)"
  "disk (provider (snd (getData_resume w T r now))) = disk (provider w)"
  "emitted (provider (snd (getData_resume w T r now))) = emitted (provider w)"
  "pendingReads (provider (snd (getData_resume w T r now))) = map_delete (pendingReads (provider w)) T"
  by (simp_all add: getData_resume_def Let_def addToCache_h_cases split: sum.splits prod.splits)

lemma cache_bounded_fields [simp]:
  "cache_bounded (s\<lparr>pendingReads := pr\<rparr>) = cache_bounded s"
  "cache_bounded (s\<lparr>readCounts := rc\<rparr>) = cache_bounded s"
  "cache_bounded (s\<lparr>writeQueue := q\<rparr>) = cache_bounded s"
  "cache_bounded (s\<lparr>writeTimer := t\<rparr>) = cache_bounded s"
  "cache_bounded (s\<lparr>this_version := v\<rparr>) = cache_bounded s"
  "cache_bounded (s\<lparr>disk := d\<rparr>) = cache_bounded s"
  "cache_bounded (s\<lparr>emitted := em\<rparr>) = cache_bounded s"
  by (simp_all add: cache_bounded_def)




lemma heap_getData_resume: "\<exists>ys. heap (snd (getData_resume w T r now)) = heap w @ ys"
  by (simp add: getData_resume_def Let_def addToCache_h_cases split: sum.splits prod.splits)

lemma warmCache_resume_frame [simp]:
  "records (warmCache_resume w T r now) = records w"
  "loads (warmCache_resume w T r now) = loads w"
  "persists (warmCache_resume w T r now) = persists w"
  "flushes (warmCache_resume w T r now) = flushes w"
  "alive (warmCache_resume w T r now) = alive w"
  "dataDir (provider (warmCache_resume w T r now)) = dataDir (provider w)"
  "writeQueue (provider (warmCache_resume w T r now)) = writeQueue (provider w)"
  "writeTimer (provider (warmCache_resume w T r now)) = writeTimer (provider w)"
  "this_version (provider (warmCache_resume w T r now)) = this_version (provider w)"
  "disk (provider (warmCache_resume w T r now)) = disk (provider w)"
  "emitted (provider (warmCache_resume w T r now)) = emitted (provider w)"
  "pendingReads (provider (warmCache_resume w T r now)) = pendingReads (provider w)"
  "readCounts (provider (warmCache_resume w T r now)) = readCounts (provider w)"
  by (simp_all add: warmCache_resume_def split: sum.splits)

lemma heap_warmCache_resume: "\<exists>ys. heap (warmCache_resume w T r now) = heap w @ ys"
  using heap_addToCache_h by (auto simp: warmCache_resume_def split: sum.splits)

lemma resume_frame [simp]:
  "records (resume w p now) = records w"
  "persists (resume w p now) = persists w"
  "flushes (resume w p now) = flushes w"
  "alive (resume w p now) = alive w"
  "length (loads (resume w p now)) = length (loads w)"
  "dataDir (provider (resume w p now)) = dataDir (provider w)"
  "writeQueue (provider (resume w p now)) = writeQueue (provider w)"
  "writeTimer (provider (resume w p now)) = writeTimer (provider w)"
  "this_version (provider (resume w p now)) = this_version (provider w)"
  "disk (provider (resume w p now)) = disk (provider w)"
  "emitted (provider (resume w p now)) = emitted (provider w)"
  by (simp_all add: resume_def Let_def split: option.splits)

lemma heap_resume: "\<exists>ys. heap (resume w p now) = heap w @ ys"
proof -
  have a: "\<And>w1 T r. heap w1 = heap w \<Longrightarrow> \<exists>ys. heap (warmCache_resume w1 T r now) = heap w @ ys"
    using heap_warmCache_resume by metis
  have b: "\<And>w1 T r. heap w1 = heap w \<Longrightarrow> \<exists>ys. heap (snd (getData_resume w1 T r now)) = heap w @ ys"
    using heap_getData_resume by metis
  show ?thesis
    by (auto simp: resume_def Let_def a b split: option.splits)
qed

lemma saveData_eq:
  "saveData w T a now =
     w\<lparr>heap := heap w @ [\<lparr> elems = elems (heap w ! a), frozen = True \<rparr>],
       provider := (evictIfNeeded
          ((provider w)\<lparr>this_version := this_version (provider w) + 1,
                        cache := map_set (cache (provider w)) T
                  \<lparr> data = length (heap w), version = this_version (provider w) + 1, lastAccess = now \<rparr>\<rparr>))
             \<lparr>writeQueue := map_set (writeQueue (provider w)) T a, writeTimer := True\<rparr>\<rparr>"
  by (simp add: saveData_def Let_def addToCache_h_cases)

lemma saveData_frame [simp]:
  "records (saveData w T a now) = records w"
  "loads (saveData w T a now) = loads w"
  "persists (saveData w T a now) = persists w"
  "flushes (saveData w T a now) = flushes w"
  "alive (saveData w T a now) = alive w"
  "heap (saveData w T a now) = heap w @ [\<lparr> elems = elems (heap w ! a), frozen = True \<rparr>]"
  "dataDir (provider (saveData w T a now)) = dataDir (provider w)"
  "writeQueue (provider (saveData w T a now)) = map_set (writeQueue (provider w)) T a"
  "writeTimer (provider (saveData w T a now)) = True"
  "this_version (provider (saveData w T a now)) = this_version (provider w) + 1"
  "disk (provider (saveData w T a now)) = disk (provider w)"
  "emitted (provider (saveData w T a now)) = emitted (provider w)"
  "pendingReads (provider (saveData w T a now)) = pendingReads (provider w)"
  "readCounts (provider (saveData w T a now)) = readCounts (provider w)"
  by (simp_all add: saveData_eq)

section \<open>Frozen arrays stay as they are\<close>


lemma length_array_write [simp]: "length (snd (array_write h b xs)) = length h"
  by (simp add: array_write_def)

lemma heap_perform:
  "(\<exists>ys. heap (perform env st w) = heap w @ ys) \<or>
   (\<exists>b xs. heap (perform env st w) = snd (array_write (heap w) b xs))"
proof (cases st)
  case (GetData t now)
  then show ?thesis using heap_getData[of w t now] by simp
next
  case (LoadEnd p)
  then show ?thesis using heap_loadFromDisk_end[of env w p] by simp
next
  case (Resume p now)
  then show ?thesis using heap_resume[of w p now] by simp
next
  case (ArrayWrite b xs)
  then show ?thesis by auto
qed (simp_all add: warmCache_def)



lemma length_heap_exec: "length (heap w) \<le> length (heap (exec env st w))"
  using heap_perform[of env st w] by (auto simp: exec_def)

lemma length_heap_run: "length (heap w) \<le> length (heap (run env steps w))"
proof (induction steps arbitrary: w)
  case Nil
  then show ?case by (simp add: run_def)
next
  case (Cons st steps)
  have "length (heap w) \<le> length (heap (exec env st w))" by (rule length_heap_exec)
  also have "\<dots> \<le> length (heap (run env steps (exec env st w)))" by (rule Cons.IH)
  finally show ?case by (simp add: run_def)
qed

section \<open>The cache stays a bounded map\<close>


lemma flushes_settle_flush:
  "flushes (settle_flush env f w) = flushes w \<or>
   (\<exists>st. st \<noteq> Waiting \<and> f < length (flushes w) \<and> f_state (flushes w ! f) = Waiting \<and>
      flushes (settle_flush env f w) = (flushes w)[f := (flushes w ! f)\<lparr>f_state := st\<rparr>])"
  by (auto simp: settle_flush_def Let_def set_flush_def split: list.splits origin.splits)

lemma cache_fold_begin_settle:
  "cache (provider (settle_flush env f (fold (writeToDisk_begin env f) wrs w))) = cache (provider w) \<or>
   (cache (provider (settle_flush env f (fold (writeToDisk_begin env f) wrs w))) = [] \<and>
      f < length (flushes w) \<and> f_state (flushes w ! f) = Waiting \<and> f_origin (flushes w ! f) = ByClose)"
  using cache_settle_flush[of env f "fold (writeToDisk_begin env f) wrs w"] by simp

lemma cache_flushWrites:
  "cache (provider (flushWrites env orig w)) = cache (provider w) \<or>
   (cache (provider (flushWrites env orig w)) = [] \<and> orig = ByClose)"
proof -
  let ?w1 = "w\<lparr>provider := (provider w)\<lparr>writeTimer := False, writeQueue := []\<rparr>,
                flushes := flushes w @ [\<lparr> f_writes = writeQueue (provider w), f_origin = orig, f_state = Waiting \<rparr>]\<rparr>"
  from cache_fold_begin_settle[of env "length (flushes w)" "writeQueue (provider w)" ?w1]
  show ?thesis by (auto simp: flushWrites_def Let_def)
qed

lemma cache_fail_persist:
  "cache (provider (fail_persist env k e w)) = cache (provider w) \<or>
   (cache (provider (fail_persist env k e w)) = [] \<and> close_waiting w)"
  using cache_settle_flush[of env "p_flush (persists w ! k)" "set_persist w k (Failed e)"]
  by (auto simp: fail_persist_def close_waiting_def)

lemma cache_file_open:
  "cache (provider (file_open env k w)) = cache (provider w) \<or>
   (cache (provider (file_open env k w)) = [] \<and> close_waiting w)"
  using cache_fail_persist[of env k _ w]
  by (auto simp: file_open_def Let_def split: sum.splits)

lemma cache_file_write:
  "cache (provider (file_write env k w)) = cache (provider w) \<or>
   (cache (provider (file_write env k w)) = [] \<and> close_waiting w)"
  using cache_fail_persist[of env k _ w]
  by (auto simp: file_write_def Let_def split: sum.splits persist_state.splits)

lemma cache_file_rename:
  "cache (provider (file_rename env k w)) = cache (provider w) \<or>
   (cache (provider (file_rename env k w)) = [] \<and> close_waiting w)"
proof (cases "k < length (persists w) \<and> p_state (persists w ! k) = Renaming")
  case False
  then show ?thesis by (auto simp: file_rename_def)
next
  case True
  let ?filePath = "table_path (dataDir (provider w)) (p_table (persists w ! k))"
  show ?thesis
  proof (cases "fs_rename (fault env) (disk (provider w)) (temp_path ?filePath) ?filePath")
    case (Inl e)
    then show ?thesis using True cache_fail_persist[of env k e w] by (simp add: file_rename_def Let_def)
  next
    case (Inr d')
    let ?w1 = "set_persist ((with_disk w d')\<lparr>persists := follow_all (temp_path ?filePath) ?filePath (persists w)\<rparr>) k Done"
    from cache_settle_flush[of env "p_flush (persists w ! k)" ?w1]
    show ?thesis using True Inr by (auto simp: file_rename_def Let_def close_waiting_def)
  qed
qed


lemma cache_timer_fires: "cache (provider (timer_fires env w)) = cache (provider w)"
  using cache_flushWrites[of env ByTimer w] by (auto simp: timer_fires_def)









section \<open>Read your own write\<close>



text \<open>The tables of the cache with the arrays their entries refer to.\<close>

lemma map_set_same_data:
  "map_of m k = Some e \<Longrightarrow> data e' = data e \<Longrightarrow>
     map (\<lambda>kv. (fst kv, data (snd kv))) (map_set m k e') = map (\<lambda>kv. (fst kv, data (snd kv))) m"
  by (induction m) (auto split: if_splits)


lemma close_waiting_update:
  "st \<noteq> Waiting \<Longrightarrow> \<not> close_waiting w \<Longrightarrow>
     flushes w' = (flushes w)[f := (flushes w ! f)\<lparr>f_state := st\<rparr>] \<Longrightarrow> \<not> close_waiting w'"
proof -
  assume st: "st \<noteq> Waiting" and n: "\<not> close_waiting w"
    and f: "flushes w' = (flushes w)[f := (flushes w ! f)\<lparr>f_state := st\<rparr>]"
  have "set (flushes w') \<subseteq> insert ((flushes w ! f)\<lparr>f_state := st\<rparr>) (set (flushes w))"
    unfolding f by (rule set_update_subset_insert)
  then show ?thesis using st n by (auto simp: close_waiting_def)
qed

lemma close_waiting_settle_flush:
  "\<not> close_waiting w \<Longrightarrow> \<not> close_waiting (settle_flush env f w)"
  using flushes_settle_flush[of env f w] close_waiting_update[of _ w "settle_flush env f w" f]
  by (auto simp: close_waiting_def)

lemma close_waiting_flushes: "flushes w' = flushes w \<Longrightarrow> close_waiting w' = close_waiting w"
  by (simp add: close_waiting_def)

lemma close_waiting_fail_persist:
  "\<not> close_waiting w \<Longrightarrow> \<not> close_waiting (fail_persist env k e w)"
  unfolding fail_persist_def
  by (rule close_waiting_settle_flush) (simp add: close_waiting_def)

lemma close_waiting_file_open: "\<not> close_waiting w \<Longrightarrow> \<not> close_waiting (file_open env k w)"
  using close_waiting_fail_persist[of w env k]
  by (auto simp: file_open_def Let_def close_waiting_def split: sum.splits)

lemma close_waiting_file_write: "\<not> close_waiting w \<Longrightarrow> \<not> close_waiting (file_write env k w)"
  using close_waiting_fail_persist[of w env k]
  by (auto simp: file_write_def Let_def close_waiting_def split: sum.splits persist_state.splits)

lemma close_waiting_file_rename: "\<not> close_waiting w \<Longrightarrow> \<not> close_waiting (file_rename env k w)"
proof -
  assume n: "\<not> close_waiting w"
  show ?thesis
  proof (cases "k < length (persists w) \<and> p_state (persists w ! k) = Renaming")
    case False
    then show ?thesis using n by (auto simp: file_rename_def)
  next
    case True
    let ?filePath = "table_path (dataDir (provider w)) (p_table (persists w ! k))"
    show ?thesis
    proof (cases "fs_rename (fault env) (disk (provider w)) (temp_path ?filePath) ?filePath")
      case (Inl e)
      then show ?thesis using True n close_waiting_fail_persist[of w env k e]
        by (simp add: file_rename_def Let_def)
    next
      case (Inr d')
      let ?w1 = "set_persist ((with_disk w d')\<lparr>persists := follow_all (temp_path ?filePath) ?filePath (persists w)\<rparr>) k Done"
      have "\<not> close_waiting ?w1" using n by (simp add: close_waiting_def)
      from close_waiting_settle_flush[OF this, of env "p_flush (persists w ! k)"]
      show ?thesis using True Inr by (simp add: file_rename_def Let_def)
    qed
  qed
qed

lemma close_waiting_timer_fires: "\<not> close_waiting w \<Longrightarrow> \<not> close_waiting (timer_fires env w)"
proof -
  assume n: "\<not> close_waiting w"
  let ?w1 = "w\<lparr>provider := (provider w)\<lparr>writeTimer := False, writeQueue := []\<rparr>,
                flushes := flushes w @ [\<lparr> f_writes = writeQueue (provider w), f_origin = ByTimer, f_state = Waiting \<rparr>]\<rparr>"
  have "\<not> close_waiting (fold (writeToDisk_begin env (length (flushes w))) (writeQueue (provider w)) ?w1)"
    using n by (simp add: close_waiting_def)
  from close_waiting_settle_flush[OF this, of env "length (flushes w)"]
  show ?thesis using n by (simp add: timer_fires_def flushWrites_def Let_def)
qed

lemma calm_exec:
  assumes "calm st" "\<not> close_waiting w"
  shows "map (\<lambda>kv. (fst kv, data (snd kv))) (cache (provider (exec env st w))) =
           map (\<lambda>kv. (fst kv, data (snd kv))) (cache (provider w)) \<and>
         \<not> close_waiting (exec env st w)"
proof (cases "alive w")
  case False
  then show ?thesis using assms by (simp add: exec_def)
next
  case True
  have "map (\<lambda>kv. (fst kv, data (snd kv))) (cache (provider (perform env st w))) =
           map (\<lambda>kv. (fst kv, data (snd kv))) (cache (provider w)) \<and>
         \<not> close_waiting (perform env st w)"
  proof (cases st)
    case (GetData t now)
    have cw: "\<not> close_waiting (snd (getData w t now))"
      using assms(2) by (simp add: close_waiting_def)
    show ?thesis
    proof (cases "map_of (cache (provider w)) t")
      case None
      then show ?thesis using GetData cw
        by (cases "map_of (pendingReads (provider w)) t") (simp_all add: getData_handed getData_started)
    next
      case (Some e)
      then show ?thesis using GetData cw
        by (simp add: getData_hit map_set_same_data close_waiting_def)
    qed
  next
    case (LoadEnd p)
    then show ?thesis using assms(2) by (simp add: close_waiting_def)
  next
    case (WarmCache t)
    then show ?thesis using assms(2) by (simp add: close_waiting_def warmCache_def)
  next
    case TimerFires
    then show ?thesis using assms(2) by (simp add: cache_timer_fires close_waiting_timer_fires)
  next
    case (FileOpen k)
    then show ?thesis using assms(2) cache_file_open[of env k w] by (auto simp: close_waiting_file_open)
  next
    case (FileWrite k)
    then show ?thesis using assms(2) cache_file_write[of env k w] by (auto simp: close_waiting_file_write)
  next
    case (FileRename k)
    then show ?thesis using assms(2) cache_file_rename[of env k w] by (auto simp: close_waiting_file_rename)
  qed (use assms in \<open>simp_all add: close_waiting_def\<close>)
  then show ?thesis using True by (simp add: exec_def)
qed

lemma calm_run:
  "\<forall>st \<in> set steps. calm st \<Longrightarrow> \<not> close_waiting w \<Longrightarrow>
     map (\<lambda>kv. (fst kv, data (snd kv))) (cache (provider (run env steps w))) =
       map (\<lambda>kv. (fst kv, data (snd kv))) (cache (provider w)) \<and>
     \<not> close_waiting (run env steps w)"
proof (induction steps arbitrary: w)
  case Nil
  then show ?case by (simp add: run_def)
next
  case (Cons st steps)
  from calm_exec[of st w env] Cons.prems
  have 1: "map (\<lambda>kv. (fst kv, data (snd kv))) (cache (provider (exec env st w))) =
           map (\<lambda>kv. (fst kv, data (snd kv))) (cache (provider w))"
    and 2: "\<not> close_waiting (exec env st w)" by simp_all
  from Cons.IH[OF _ 2] Cons.prems(1) 1 show ?case by (simp add: run_def)
qed







end
